theory Spec2Isabelle
  imports Complex_Main "HOL-Library.Multiset" "HOL-Library.Sublist"
begin

section \<open>Strings of the script\<close>

text \<open>
  The script's strings are modelled as \<open>string\<close>: a list of code units, here restricted to
  the range 0..255 (Latin-1). \<open>charCodeAt\<close> is \<open>of_char\<close>.
\<close>

definition isWhiteSpace :: "char \<Rightarrow> bool" where
  \<comment> \<open>the white space and line terminators that \<open>String.prototype.trim\<close> strips\<close>
  "isWhiteSpace c = (of_char c \<in> {9, 10, 11, 12, 13, 32, 160 :: nat})"

definition trim :: "string \<Rightarrow> string" where
  "trim s = rev (dropWhile isWhiteSpace (rev (dropWhile isWhiteSpace s)))"

definition toLowerChar :: "char \<Rightarrow> char" where
  "toLowerChar c =
     (let n = (of_char c :: nat)
      in if (65 \<le> n \<and> n \<le> 90) \<or> (192 \<le> n \<and> n \<le> 222 \<and> n \<noteq> 215)
         then char_of (n + 32) else c)"

definition toLowerCase :: "string \<Rightarrow> string" where
  "toLowerCase s = map toLowerChar s"

definition isLineTerminator :: "char \<Rightarrow> bool" where
  \<comment> \<open>what \<open>.\<close> refuses to match in a regular expression without the \<open>s\<close> flag\<close>
  "isLineTerminator c = (of_char c \<in> {10, 13 :: nat})"

fun strip_prefix :: "string \<Rightarrow> string \<Rightarrow> string option" where
  "strip_prefix [] s = Some s"
| "strip_prefix (p # ps) [] = None"
| "strip_prefix (p # ps) (c # cs) = (if p = c then strip_prefix ps cs else None)"

section \<open>Data model\<close>

record FeatureRequest =
  title :: string
  description :: string
  status :: string
  Total_Likes :: string
  Requested_By :: string
  created_at :: string

record CannyUser =
  user_id :: string
  user_email :: string
  user_name :: string

type_synonym FakeUser = CannyUser

record ImportState =
  cursor :: nat
  importedIds :: "string list"

datatype category = Feature | Bug

datatype error = Rejected | TypeError

section \<open>The categorizer's answer (\<open>categorizeRequest\<close>, lines 167-171)\<close>

text \<open>
  The message content of the completion may be missing (\<open>None\<close>); the optional chain then
  gives \<open>undefined\<close>, which is not \<open>"bug"\<close>.
\<close>

definition category_of_content :: "string option \<Rightarrow> category" where
  "category_of_content content =
     (let category = map_option (\<lambda>s. toLowerCase (trim s)) content
      in if category = Some ''bug'' then Bug else Feature)"

section \<open>The validity filter's answer (\<open>isValidRequest\<close>, lines 197-200)\<close>

definition isValid_of_content :: "string option \<Rightarrow> bool" where
  "isValid_of_content content = (map_option (\<lambda>s. toLowerCase (trim s)) content = Some ''yes'')"

section \<open>The enhancer's answer (\<open>enhanceRequest\<close>, lines 227-239)\<close>

text \<open>
  \<open>/Enhanced Title: (.+)/\<close>: the leftmost position where the literal is followed by at
  least one character that is not a line terminator; the group is the longest such run.
\<close>

fun match_title :: "string \<Rightarrow> string option" where
  "match_title [] = None"
| "match_title (c # cs) =
     (case strip_prefix ''Enhanced Title: '' (c # cs) of
        None \<Rightarrow> match_title cs
      | Some rest \<Rightarrow>
          (let grp = takeWhile (\<lambda>x. \<not> isLineTerminator x) rest
           in if grp \<noteq> [] then Some grp else match_title cs))"

text \<open>
  \<open>/Enhanced Description: (.+)/s\<close>: with the \<open>s\<close> flag the dot matches every character,
  so the group is the whole rest of the text, which must not be empty.
\<close>

fun match_description :: "string \<Rightarrow> string option" where
  "match_description [] = None"
| "match_description (c # cs) =
     (case strip_prefix ''Enhanced Description: '' (c # cs) of
        None \<Rightarrow> match_description cs
      | Some rest \<Rightarrow> if rest \<noteq> [] then Some rest else match_description cs)"

definition original_suffix :: "FeatureRequest \<Rightarrow> string" where
  "original_suffix request =
     [CHR 0x0A, CHR 0x0A] @ ''Original title: '' @ title request @
     [CHR 0x0A] @ ''Original description: '' @ description request"

definition enhanced_of_content :: "FeatureRequest \<Rightarrow> string option \<Rightarrow> FeatureRequest" where
  "enhanced_of_content request enhancedContent =
     (let enhancedTitle =
            (case Option.bind enhancedContent match_title of
               Some t \<Rightarrow> t | None \<Rightarrow> title request);
          enhancedDescription =
            (case Option.bind enhancedContent match_description of
               Some d \<Rightarrow> d | None \<Rightarrow> description request)
      in request\<lparr>title := enhancedTitle,
                 description := enhancedDescription @ original_suffix request\<rparr>)"

section \<open>Item identifiers (\<open>generateItemId\<close>, lines 343-348)\<close>

text \<open>
  The MD5 digest comes from the platform's crypto library; it is a parameter of the model
  (\<open>md5\<close>: text to hexadecimal digest).
\<close>

definition generateItemId :: "(string \<Rightarrow> string) \<Rightarrow> FeatureRequest \<Rightarrow> string" where
  "generateItemId md5 request = md5 (title request @ created_at request)"

section \<open>The seeded shuffle (\<open>shuffleArray\<close>, \<open>pseudoRandom\<close>, lines 290-313)\<close>

text \<open>
  \<open>Math.sin\<close> is a parameter \<open>sn\<close> of the model, and the arithmetic around it is that of
  the real numbers: the rounding of floating point is outside the model.
\<close>

definition pseudoRandom :: "(real \<Rightarrow> real) \<Rightarrow> real \<Rightarrow> real" where
  "pseudoRandom sn seed = (let x = sn seed * 10000 in x - of_int \<lfloor>x\<rfloor>)"

definition seedNumber :: "string \<Rightarrow> nat" where
  "seedNumber seed = foldl (\<lambda>acc c. acc + of_char c) 0 seed"

text \<open>
  The \<open>while (m)\<close> loop. Entering with \<open>m = Suc k\<close>, the index \<open>i\<close> is computed from the
  old \<open>m\<close>, then \<open>m\<close> becomes \<open>k\<close> and the places \<open>k\<close> and \<open>i\<close> are exchanged through \<open>t\<close>.
  Lemma \<open>shuffle_index_le\<close> below shows \<open>i \<le> k\<close>, so both places are inside the array.
\<close>

definition shuffle_index :: "(real \<Rightarrow> real) \<Rightarrow> nat \<Rightarrow> nat \<Rightarrow> nat" where
  "shuffle_index sn sd m = nat \<lfloor>pseudoRandom sn (real (sd + m)) * real m\<rfloor>"

fun shuffle_loop :: "(real \<Rightarrow> real) \<Rightarrow> nat \<Rightarrow> nat \<Rightarrow> 'a list \<Rightarrow> 'a list" where
  "shuffle_loop sn sd 0 array = array"
| "shuffle_loop sn sd (Suc k) array =
     (let i = shuffle_index sn sd (Suc k);
          t = array ! k;
          array1 = array[k := array ! i];
          array2 = array1[i := t]
      in shuffle_loop sn sd k array2)"

definition shuffleArray :: "(real \<Rightarrow> real) \<Rightarrow> 'a list \<Rightarrow> string \<Rightarrow> 'a list" where
  "shuffleArray sn array seed = shuffle_loop sn (seedNumber seed) (length array) array"

subsection \<open>The shuffle as the specification words it\<close>

definition spec_seed :: "string \<Rightarrow> nat" where
  "spec_seed post_id = sum_list (map of_char post_id)"

definition spec_index :: "(real \<Rightarrow> real) \<Rightarrow> nat \<Rightarrow> nat \<Rightarrow> nat" where
  "spec_index sn sd m = nat \<lfloor>frac (sn (real (sd + m)) * 10000) * real m\<rfloor>"

definition spec_swap :: "'a list \<Rightarrow> nat \<Rightarrow> nat \<Rightarrow> 'a list" where
  "spec_swap xs a b = xs[a := xs ! b, b := xs ! a]"

definition spec_shuffle :: "(real \<Rightarrow> real) \<Rightarrow> 'a list \<Rightarrow> string \<Rightarrow> 'a list" where
  "spec_shuffle sn pool post_id =
     foldl (\<lambda>xs m. spec_swap xs (m - 1) (spec_index sn (spec_seed post_id) m))
       pool (rev [1..<Suc (length pool)])"

definition bug_spellings :: "string set" where
  \<comment> \<open>the texts that match \<open>bug\<close> when case is ignored\<close>
  "bug_spellings =
     {''bug'', ''buG'', ''bUg'', ''bUG'', ''Bug'', ''BuG'', ''BUg'', ''BUG''}"

section \<open>Numbers read from text (\<open>parseInt\<close>)\<close>

text \<open>
  \<open>parseInt\<close> with no radix: leading white space, an optional sign, an optional \<open>0x\<close>,
  then the longest run of digits; \<open>NaN\<close> (here \<open>None\<close>) when that run is empty. Numbers
  are exact integers: the rounding above \<open>2^53\<close> is outside the model.
\<close>

definition digit_of :: "nat \<Rightarrow> char \<Rightarrow> nat option" where
  "digit_of radix c =
     (let n = (of_char c :: nat);
          v = (if 48 \<le> n \<and> n \<le> 57 then Some (n - 48)
               else if 97 \<le> n \<and> n \<le> 102 then Some (n - 87)
               else if 65 \<le> n \<and> n \<le> 70 then Some (n - 55)
               else None)
      in case v of None \<Rightarrow> None | Some d \<Rightarrow> if d < radix then Some d else None)"

definition parseInt :: "string \<Rightarrow> int option" where
  "parseInt input =
     (let s0 = dropWhile isWhiteSpace input;
          negative = (s0 \<noteq> [] \<and> hd s0 = CHR ''-'');
          s1 = (if s0 \<noteq> [] \<and> (hd s0 = CHR ''+'' \<or> hd s0 = CHR ''-'') then tl s0 else s0);
          hex = (take 2 s1 = ''0x'' \<or> take 2 s1 = ''0X'');
          radix = (if hex then 16 else 10);
          s2 = (if hex then drop 2 s1 else s1);
          z = takeWhile (\<lambda>c. digit_of radix c \<noteq> None) s2;
          n = foldl (\<lambda>a c. a * radix + the (digit_of radix c)) 0 z
      in if z = [] then None else Some (if negative then - int n else int n))"

section \<open>Remote services and configuration\<close>

datatype stage = Validity | Enhancement | Categorization

text \<open>
  The requests the script sends: a chat completion (stage, title, description), the
  feedback board's \<open>users/create_or_update\<close> (email), \<open>posts/create\<close> (board, author,
  title, details, creation date) and \<open>votes/create\<close> (post, voter).
\<close>

datatype call =
    ChatCompletion stage string string
  | UsersCreateOrUpdate string
  | PostsCreate string string string string string
  | VotesCreate string string

fun is_chat :: "call \<Rightarrow> bool" where
  "is_chat (ChatCompletion s t d) = True"
| "is_chat c = False"

text \<open>
  What lies outside the script: the platform's library functions and the answers of the
  two remote services. Every answer is indexed by the row during which the request is
  sent, so that a service may fail for one row and answer for another. \<open>Inl\<close> is a
  rejected promise, which the \<open>await\<close> turns into an exception. A chat answer is the
  message content of the first choice, if any; the answer to \<open>posts/create\<close> is the
  \<open>id\<close> field of the response body, if any.
\<close>

record services =
  md5 :: "string \<Rightarrow> string"
  Math_sin :: "real \<Rightarrow> real"
  random_alias :: "nat \<Rightarrow> string"
  chat_reply :: "nat \<Rightarrow> stage \<Rightarrow> string \<Rightarrow> string \<Rightarrow> error + string option"
  user_reply :: "nat \<Rightarrow> string \<Rightarrow> error + string"
  post_reply :: "nat \<Rightarrow> string \<Rightarrow> string \<Rightarrow> FeatureRequest \<Rightarrow> error + string option"
  vote_reply :: "nat \<Rightarrow> string \<Rightarrow> string \<Rightarrow> error + unit"

record config =
  FEATURE_BOARD_ID :: string
  BUG_BOARD_ID :: string
  INVALID_POSTS_AI_FILTERING :: string
  POSTS_AI_ENHANCEMENT :: string
  MAX_POSTS :: string

section \<open>The asynchronous functions: result and requests sent\<close>

definition isValidRequest ::
  "services \<Rightarrow> nat \<Rightarrow> string \<Rightarrow> string \<Rightarrow> (error + bool) \<times> call list" where
  "isValidRequest env i t d =
     (case chat_reply env i Validity t d of
        Inl e \<Rightarrow> (Inl e, [ChatCompletion Validity t d])
      | Inr content \<Rightarrow> (Inr (isValid_of_content content), [ChatCompletion Validity t d]))"

definition enhanceRequest ::
  "services \<Rightarrow> nat \<Rightarrow> FeatureRequest \<Rightarrow> (error + FeatureRequest) \<times> call list" where
  "enhanceRequest env i request =
     (case chat_reply env i Enhancement (title request) (description request) of
        Inl e \<Rightarrow> (Inl e, [ChatCompletion Enhancement (title request) (description request)])
      | Inr content \<Rightarrow>
          (Inr (enhanced_of_content request content),
           [ChatCompletion Enhancement (title request) (description request)]))"

definition categorizeRequest ::
  "services \<Rightarrow> nat \<Rightarrow> string \<Rightarrow> string \<Rightarrow> (error + category) \<times> call list" where
  "categorizeRequest env i t d =
     (case chat_reply env i Categorization t d of
        Inl e \<Rightarrow> (Inl e, [ChatCompletion Categorization t d])
      | Inr content \<Rightarrow> (Inr (category_of_content content), [ChatCompletion Categorization t d]))"

definition createOrUpdateUser ::
  "services \<Rightarrow> nat \<Rightarrow> string \<Rightarrow> (error + CannyUser) \<times> call list" where
  "createOrUpdateUser env i email =
     (case user_reply env i email of
        Inl e \<Rightarrow> (Inl e, [UsersCreateOrUpdate email])
      | Inr uid \<Rightarrow>
          (Inr \<lparr>user_id = uid, user_email = email, user_name = random_alias env i\<rparr>,
           [UsersCreateOrUpdate email]))"

definition createPost ::
  "services \<Rightarrow> config \<Rightarrow> nat \<Rightarrow> FeatureRequest \<Rightarrow> CannyUser \<Rightarrow> category \<Rightarrow>
     (error + string option) \<times> call list" where
  "createPost env cfg i request author category =
     (let boardID = (if category = Feature then FEATURE_BOARD_ID cfg else BUG_BOARD_ID cfg)
      in (post_reply env i boardID (user_id author) request,
          [PostsCreate boardID (user_id author) (title request) (description request)
             (created_at request)]))"

section \<open>The vote simulator (\<open>addVotes\<close>, lines 266-288)\<close>

text \<open>
  \<open>array.slice(0, count)\<close>: \<open>NaN\<close> counts as 0, a negative count is taken from the end.
\<close>

definition slice0 :: "'a list \<Rightarrow> int option \<Rightarrow> 'a list" where
  "slice0 xs end =
     (case end of
        None \<Rightarrow> []
      | Some k \<Rightarrow> if k < 0 then take (nat (int (length xs) + k)) xs else take (nat k) xs)"

text \<open>The \<open>for ... of\<close> loop over the voters: it ends at the first rejected request.\<close>

fun cast_votes :: "services \<Rightarrow> nat \<Rightarrow> string \<Rightarrow> FakeUser list \<Rightarrow> error option \<times> call list" where
  "cast_votes env i postID [] = (None, [])"
| "cast_votes env i postID (voter # voters) =
     (case vote_reply env i postID (user_id voter) of
        Inl e \<Rightarrow> (Some e, [VotesCreate postID (user_id voter)])
      | Inr u \<Rightarrow>
          (case cast_votes env i postID voters of
             (r, cs) \<Rightarrow> (r, VotesCreate postID (user_id voter) # cs)))"

text \<open>
  A post identifier that is missing makes \<open>seed.split\<close> throw a type error before any
  vote is sent.
\<close>

definition addVotes ::
  "services \<Rightarrow> nat \<Rightarrow> string option \<Rightarrow> int option \<Rightarrow> FakeUser list \<Rightarrow>
     error option \<times> call list" where
  "addVotes env i postID votes fakeUsers =
     (case postID of
        None \<Rightarrow> (Some TypeError, [])
      | Some p \<Rightarrow>
          (let shuffledUsers = shuffleArray (Math_sin env) fakeUsers p;
               voters = slice0 shuffledUsers votes
           in cast_votes env i p voters))"

section \<open>The import loop (\<open>main\<close>, lines 388-454)\<close>

record run_state =
  importState :: ImportState
  import_state_json :: "ImportState option"
  importedPosts :: nat
  existingFeaturePosts :: "string set"
  existingBugPosts :: "string set"

datatype outcome = LocallySkipped | Filtered | RemotelySkipped | Committed | Failed error

datatype gate = GateFailed error | GateInvalid | GatePassed FeatureRequest category

definition loadOrCreateImportState :: "ImportState option \<Rightarrow> ImportState" where
  \<comment> \<open>\<open>None\<close>: the file is missing or unreadable\<close>
  "loadOrCreateImportState file =
     (case file of None \<Rightarrow> \<lparr>cursor = 0, importedIds = []\<rparr> | Some state \<Rightarrow> state)"

definition saveImportState :: "ImportState \<Rightarrow> run_state \<Rightarrow> run_state" where
  "saveImportState state st = st\<lparr>import_state_json := Some state\<rparr>"

definition existingPosts :: "category \<Rightarrow> run_state \<Rightarrow> string set" where
  "existingPosts category st =
     (if category = Feature then existingFeaturePosts st else existingBugPosts st)"

text \<open>Lines 410-429: validity filter, enhancer and categorizer, in this order.\<close>

definition ai_stages :: "services \<Rightarrow> config \<Rightarrow> nat \<Rightarrow> FeatureRequest \<Rightarrow> gate \<times> call list" where
  "ai_stages env cfg i request =
     (case (if INVALID_POSTS_AI_FILTERING cfg = ''true''
            then isValidRequest env i (title request) (description request)
            else (Inr True, [])) of
        (Inl e, c1) \<Rightarrow> (GateFailed e, c1)
      | (Inr isValid, c1) \<Rightarrow>
          if \<not> isValid then (GateInvalid, c1)
          else
            (case (if POSTS_AI_ENHANCEMENT cfg = ''true''
                   then enhanceRequest env i request
                   else (Inr request, [])) of
               (Inl e, c2) \<Rightarrow> (GateFailed e, c1 @ c2)
             | (Inr enhancedRequest, c2) \<Rightarrow>
                 (case categorizeRequest env i (title enhancedRequest)
                         (description enhancedRequest) of
                    (Inl e, c3) \<Rightarrow> (GateFailed e, c1 @ c2 @ c3)
                  | (Inr category, c3) \<Rightarrow>
                      (GatePassed enhancedRequest category, c1 @ c2 @ c3))))"

text \<open>Lines 441-443: the requester's identity, the post, the votes.\<close>

definition publish ::
  "services \<Rightarrow> config \<Rightarrow> FakeUser list \<Rightarrow> nat \<Rightarrow> FeatureRequest \<Rightarrow> FeatureRequest \<Rightarrow>
     category \<Rightarrow> error option \<times> call list" where
  "publish env cfg fakeUsers i request enhancedRequest category =
     (case createOrUpdateUser env i (Requested_By request) of
        (Inl e, c1) \<Rightarrow> (Some e, c1)
      | (Inr author, c1) \<Rightarrow>
          (case createPost env cfg i enhancedRequest author category of
             (Inl e, c2) \<Rightarrow> (Some e, c1 @ c2)
           | (Inr postID, c2) \<Rightarrow>
               (case addVotes env i postID (parseInt (Total_Likes request)) fakeUsers of
                  (r, c3) \<Rightarrow> (r, c1 @ c2 @ c3))))"

text \<open>Lines 446-450: the bookkeeping after a row is imported.\<close>

definition commit :: "nat \<Rightarrow> string \<Rightarrow> FeatureRequest \<Rightarrow> category \<Rightarrow> run_state \<Rightarrow> run_state" where
  "commit i itemId enhancedRequest category st =
     (let st1 = (if category = Feature
                 then st\<lparr>existingFeaturePosts := insert (title enhancedRequest) (existingFeaturePosts st)\<rparr>
                 else st\<lparr>existingBugPosts := insert (title enhancedRequest) (existingBugPosts st)\<rparr>);
          st2 = st1\<lparr>importedPosts := importedPosts st1 + 1\<rparr>;
          state = \<lparr>cursor = i + 1, importedIds = importedIds (importState st2) @ [itemId]\<rparr>
      in saveImportState state (st2\<lparr>importState := state\<rparr>))"

text \<open>Lines 400-453: one row, after the test of the maximum.\<close>

definition import_row ::
  "services \<Rightarrow> config \<Rightarrow> FakeUser list \<Rightarrow> nat \<Rightarrow> FeatureRequest \<Rightarrow> run_state \<Rightarrow>
     outcome \<times> call list \<times> run_state" where
  "import_row env cfg fakeUsers i request st =
     (let itemId = generateItemId (md5 env) request
      in if itemId \<in> set (importedIds (importState st)) then (LocallySkipped, [], st)
         else
           (case ai_stages env cfg i request of
              (GateFailed e, cs) \<Rightarrow> (Failed e, cs, st)
            | (GateInvalid, cs) \<Rightarrow> (Filtered, cs, st)
            | (GatePassed enhancedRequest category, cs) \<Rightarrow>
                if title enhancedRequest \<in> existingPosts category st
                then (RemotelySkipped, cs, st)
                else
                  (case publish env cfg fakeUsers i request enhancedRequest category of
                     (Some e, cs') \<Rightarrow> (Failed e, cs @ cs', st)
                   | (None, cs') \<Rightarrow>
                       (Committed, cs @ cs',
                        commit i itemId enhancedRequest category st))))"

definition reached_maximum :: "config \<Rightarrow> run_state \<Rightarrow> bool" where
  \<comment> \<open>\<open>importedPosts >= maxPosts\<close>, false when \<open>maxPosts\<close> is \<open>NaN\<close>\<close>
  "reached_maximum cfg st =
     (case parseInt (MAX_POSTS cfg) of
        None \<Rightarrow> False
      | Some maxPosts \<Rightarrow> maxPosts \<le> int (importedPosts st))"

type_synonym row_log = "(nat \<times> outcome \<times> call list) list"

text \<open>
  The \<open>for\<close> loop from index \<open>i\<close> over the rows that remain. The result is the log of the
  rows gone through (index, outcome, requests sent), whether the loop was left by
  \<open>break\<close>, and the state at the end.
\<close>

fun import_rows ::
  "services \<Rightarrow> config \<Rightarrow> FakeUser list \<Rightarrow> nat \<Rightarrow> FeatureRequest list \<Rightarrow> run_state \<Rightarrow>
     row_log \<times> bool \<times> run_state" where
  "import_rows env cfg fakeUsers i [] st = ([], False, st)"
| "import_rows env cfg fakeUsers i (request # rest) st =
     (if reached_maximum cfg st then ([], True, st)
      else
        (case import_row env cfg fakeUsers i request st of
           (out, cs, st') \<Rightarrow>
             (case import_rows env cfg fakeUsers (Suc i) rest st' of
                (lg, stopped, st'') \<Rightarrow> ((i, out, cs) # lg, stopped, st''))))"

text \<open>
  \<open>main\<close> from line 388 on. Its inputs are what the lines before have produced: the rows
  of the source file, the voter pool, the titles found on the two boards, and the content
  of the state file.
\<close>

definition initial_state :: "string set \<Rightarrow> string set \<Rightarrow> ImportState option \<Rightarrow> run_state" where
  "initial_state featureTitles bugTitles file =
     \<lparr>importState = loadOrCreateImportState file,
      import_state_json = file,
      importedPosts = length (importedIds (loadOrCreateImportState file)),
      existingFeaturePosts = featureTitles,
      existingBugPosts = bugTitles\<rparr>"

definition main_loop ::
  "services \<Rightarrow> config \<Rightarrow> FeatureRequest list \<Rightarrow> FakeUser list \<Rightarrow> string set \<Rightarrow> string set \<Rightarrow>
     ImportState option \<Rightarrow> row_log \<times> bool \<times> run_state" where
  "main_loop env cfg requests fakeUsers featureTitles bugTitles file =
     (let st = initial_state featureTitles bugTitles file
      in import_rows env cfg fakeUsers (cursor (importState st))
           (drop (cursor (importState st)) requests) st)"

definition committed_rows :: "row_log \<Rightarrow> nat" where
  "committed_rows lg = length (filter (\<lambda>e. fst (snd e) = Committed) lg)"

text \<open>
  A row that is neither imported nor failed: it is skipped by one of the two duplicate
  checks or by the validity filter, and has sent chat completions at most.
\<close>

fun is_failed :: "outcome \<Rightarrow> bool" where
  "is_failed (Failed e) = True"
| "is_failed out = False"

definition quiet_entry :: "nat \<times> outcome \<times> call list \<Rightarrow> bool" where
  "quiet_entry en =
     (fst (snd en) \<in> {LocallySkipped, Filtered, RemotelySkipped} \<and> list_all is_chat (snd (snd en)))"

section \<open>Concrete inputs\<close>

text \<open>
  Services that always answer: every request is valid and a feature. The digest is a
  stand-in (the text itself) and so is the sine; the theorems below hold for all of them.
\<close>

definition demo_services :: services where
  "demo_services =
     \<lparr>md5 = (\<lambda>s. s),
      Math_sin = (\<lambda>x. x / 7),
      random_alias = (\<lambda>i. ''Happy Fox''),
      chat_reply = (\<lambda>i s t d. Inr (Some (if s = Validity then ''yes'' else ''feature''))),
      user_reply = (\<lambda>i email. Inr email),
      post_reply = (\<lambda>i board author request. Inr (Some (''p'' @ title request))),
      vote_reply = (\<lambda>i p v. Inr ())\<rparr>"

definition demo_config :: config where
  "demo_config =
     \<lparr>FEATURE_BOARD_ID = ''F'', BUG_BOARD_ID = ''B'',
      INVALID_POSTS_AI_FILTERING = ''false'', POSTS_AI_ENHANCEMENT = ''false'',
      MAX_POSTS = ''Infinity''\<rparr>"

definition demo_request :: "string \<Rightarrow> string \<Rightarrow> FeatureRequest" where
  "demo_request t c =
     \<lparr>title = t, description = ''D'', status = ''open'', Total_Likes = ''2'',
      Requested_By = ''a@x.org'', created_at = c\<rparr>"

definition demo_users :: "FakeUser list" where
  "demo_users =
     [\<lparr>user_id = ''A'', user_email = ''fake1@x.org'', user_name = ''Wise Owl''\<rparr>,
      \<lparr>user_id = ''B'', user_email = ''fake2@x.org'', user_name = ''Kind Fox''\<rparr>,
      \<lparr>user_id = ''C'', user_email = ''fake3@x.org'', user_name = ''Brave Eagle''\<rparr>]"

definition demo_rows :: "nat \<Rightarrow> FeatureRequest list" where
  \<comment> \<open>rows with the titles \<open>t0\<close>, \<open>t1\<close>, ...\<close>
  "demo_rows n = map (\<lambda>k. demo_request (''t'' @ [char_of (48 + k)]) ''2020'') [0..<n]"



section \<open>Properties of the text functions\<close>

lemma of_char_toLowerChar:
  "(of_char (toLowerChar c) :: nat) =
     (if (65 \<le> (of_char c :: nat) \<and> (of_char c :: nat) \<le> 90) \<or>
         (192 \<le> (of_char c :: nat) \<and> (of_char c :: nat) \<le> 222 \<and> (of_char c :: nat) \<noteq> 215)
      then of_char c + 32 else of_char c)"
  by (simp add: toLowerChar_def Let_def)

lemma toLowerChar_eq_iff:
  assumes "97 \<le> (of_char l :: nat)" "(of_char l :: nat) \<le> 122"
  shows "toLowerChar c = l \<longleftrightarrow>
           (of_char c :: nat) = of_char l \<or> (of_char c :: nat) + 32 = of_char l"
proof -
  have "toLowerChar c = l \<longleftrightarrow> (of_char (toLowerChar c) :: nat) = of_char l"
    by simp
  also have "\<dots> \<longleftrightarrow> (of_char c :: nat) = of_char l \<or> (of_char c :: nat) + 32 = of_char l"
    using assms unfolding of_char_toLowerChar by auto
  finally show ?thesis .
qed

lemma of_char_is: "(of_char c :: nat) = of_char d \<longleftrightarrow> c = d"
  by simp

lemma lower_b: "toLowerChar c = CHR ''b'' \<longleftrightarrow> c = CHR ''b'' \<or> c = CHR ''B''"
proof -
  have "toLowerChar c = CHR ''b'' \<longleftrightarrow> (of_char c :: nat) = 98 \<or> (of_char c :: nat) = 66"
    by (simp add: toLowerChar_eq_iff del: of_char_eq_iff)
  then show ?thesis
    using of_char_is [of c "CHR ''b''"] of_char_is [of c "CHR ''B''"] by simp
qed

lemma lower_u: "toLowerChar c = CHR ''u'' \<longleftrightarrow> c = CHR ''u'' \<or> c = CHR ''U''"
proof -
  have "toLowerChar c = CHR ''u'' \<longleftrightarrow> (of_char c :: nat) = 117 \<or> (of_char c :: nat) = 85"
    by (simp add: toLowerChar_eq_iff del: of_char_eq_iff)
  then show ?thesis
    using of_char_is [of c "CHR ''u''"] of_char_is [of c "CHR ''U''"] by simp
qed

lemma lower_g: "toLowerChar c = CHR ''g'' \<longleftrightarrow> c = CHR ''g'' \<or> c = CHR ''G''"
proof -
  have "toLowerChar c = CHR ''g'' \<longleftrightarrow> (of_char c :: nat) = 103 \<or> (of_char c :: nat) = 71"
    by (simp add: toLowerChar_eq_iff del: of_char_eq_iff)
  then show ?thesis
    using of_char_is [of c "CHR ''g''"] of_char_is [of c "CHR ''G''"] by simp
qed

lemma toLowerCase_bug: "toLowerCase w = ''bug'' \<longleftrightarrow> w \<in> bug_spellings"
proof -
  have "toLowerCase w = ''bug'' \<longleftrightarrow>
          (\<exists>a b c. w = [a, b, c] \<and> toLowerChar a = CHR ''b'' \<and> toLowerChar b = CHR ''u'' \<and>
             toLowerChar c = CHR ''g'')"
    unfolding toLowerCase_def by (auto simp: map_eq_Cons_conv)
  also have "\<dots> \<longleftrightarrow> w \<in> bug_spellings"
    unfolding lower_b lower_u lower_g bug_spellings_def by auto
  finally show ?thesis .
qed

text \<open>
  Claim C9, as the code has it: the categorizer answers \<open>bug\<close> exactly when the response,
  with the white space around it removed, is one of the spellings of \<open>bug\<close> in upper and
  lower case; a missing response, the empty text, \<open>maybe\<close> and \<open>Bug!!\<close> all give
  \<open>feature\<close>. The function is total: no response is an error.
\<close>

theorem categorizer_bug_iff_trimmed:
  "(category_of_content content = Bug \<longleftrightarrow> (\<exists>s. content = Some s \<and> trim s \<in> bug_spellings))
   \<and> category_of_content None = Feature
   \<and> category_of_content (Some '''') = Feature
   \<and> category_of_content (Some ''maybe'') = Feature
   \<and> category_of_content (Some ''Bug!!'') = Feature"
proof -
  have "category_of_content content = Bug \<longleftrightarrow> (\<exists>s. content = Some s \<and> trim s \<in> bug_spellings)"
    by (cases content) (simp_all add: category_of_content_def toLowerCase_bug)
  moreover have "category_of_content None = Feature" by (simp add: category_of_content_def)
  moreover have "category_of_content (Some '''') = Feature" by code_simp
  moreover have "category_of_content (Some ''maybe'') = Feature" by code_simp
  moreover have "category_of_content (Some ''Bug!!'') = Feature" by code_simp
  ultimately show ?thesis by simp
qed

text \<open>
  The response \<open>bug\<close> with a space in front is not an exact match, and is classified as a
  bug all the same.
\<close>

theorem categorizer_exact_match_counterexample:
  "category_of_content (Some '' bug'') = Bug \<and> '' bug'' \<notin> bug_spellings"
proof -
  have "category_of_content (Some '' bug'') = Bug" by code_simp
  moreover have "'' bug'' \<notin> bug_spellings" by (simp add: bug_spellings_def)
  ultimately show ?thesis by simp
qed

section \<open>Properties of the enhancer\<close>

text \<open>
  Claim C8, as the code has it: when the response has no title in the expected shape the
  title is the original one; when it has no description in the expected shape the new
  description is the original description followed by the block that repeats the original
  title and description. In every case the new description ends with that block, hence
  with the original description. The function is total: a parse miss is no failure.
\<close>

theorem enhancer_appends_original:
  "(Option.bind content match_title = None \<longrightarrow>
      title (enhanced_of_content request content) = title request)
   \<and> (Option.bind content match_description = None \<longrightarrow>
      description (enhanced_of_content request content) =
        description request @ original_suffix request)
   \<and> suffix (original_suffix request) (description (enhanced_of_content request content))
   \<and> suffix (description request) (description (enhanced_of_content request content))
   \<and> original_suffix request =
       [CHR 0x0A, CHR 0x0A] @ ''Original title: '' @ title request @
       [CHR 0x0A] @ ''Original description: '' @ description request"
proof -
  have s: "suffix (description request) (original_suffix request)"
    unfolding original_suffix_def suffix_def by (metis append_assoc)
  have "suffix (original_suffix request) (description (enhanced_of_content request content))"
    by (simp add: enhanced_of_content_def Let_def suffix_def)
  moreover from this have
    "suffix (description request) (description (enhanced_of_content request content))"
    using s suffix_order.trans by blast
  ultimately show ?thesis
    by (simp add: enhanced_of_content_def Let_def original_suffix_def)
qed

theorem enhancer_appends_original_witness:
  "Option.bind (Some ''I cannot help with that'') match_title = None
   \<and> Option.bind (Some ''I cannot help with that'') match_description = None
   \<and> title (enhanced_of_content (demo_request ''T'' ''2020'') (Some ''I cannot help with that'')) = ''T''
   \<and> description (enhanced_of_content (demo_request ''T'' ''2020'') (Some ''I cannot help with that'')) =
       ''D'' @ original_suffix (demo_request ''T'' ''2020'')"
proof -
  have a: "Option.bind (Some ''I cannot help with that'') match_title = None" by code_simp
  have b: "Option.bind (Some ''I cannot help with that'') match_description = None" by code_simp
  have c: "title (demo_request ''T'' ''2020'') = ''T''" "description (demo_request ''T'' ''2020'') = ''D''"
    by (simp_all add: demo_request_def)
  show ?thesis
    using enhancer_appends_original [of "Some ''I cannot help with that''" "demo_request ''T'' ''2020''"] a b c
    by simp
qed

text \<open>
  A response in which neither pattern matches: the description that comes back is not the
  original one.
\<close>

theorem enhancer_unmodified_counterexample:
  "Option.bind (Some ''I cannot help with that'') match_title = None
   \<and> Option.bind (Some ''I cannot help with that'') match_description = None
   \<and> description (enhanced_of_content (demo_request ''T'' ''2020'') (Some ''I cannot help with that''))
       \<noteq> description (demo_request ''T'' ''2020'')"
  by code_simp

section \<open>Properties of the shuffle and of the vote simulator\<close>

lemma seedNumber_foldl: "foldl (\<lambda>acc c. acc + of_char c) a s = a + sum_list (map of_char s)" for a :: nat
  by (induction s arbitrary: a) simp_all

lemma seedNumber_spec: "seedNumber s = spec_seed s"
  by (simp add: seedNumber_def spec_seed_def seedNumber_foldl)

lemma shuffle_index_spec: "shuffle_index sn sd m = spec_index sn sd m"
  by (simp add: shuffle_index_def spec_index_def pseudoRandom_def frac_def Let_def)

lemma shuffle_loop_spec:
  "shuffle_loop sn sd n xs =
     foldl (\<lambda>xs m. spec_swap xs (m - 1) (spec_index sn sd m)) xs (rev [1..<Suc n])"
proof (induction n arbitrary: xs)
  case 0
  show ?case by simp
next
  case (Suc n)
  have "rev [1..<Suc (Suc n)] = Suc n # rev [1..<Suc n]" by simp
  then show ?case
    by (simp only: shuffle_loop.simps Let_def foldl_Cons Suc.IH shuffle_index_spec spec_swap_def diff_Suc_1)
qed

text \<open>
  Claim C1: the order computed by \<open>shuffleArray\<close> is the one the specified algorithm
  computes: the seed is the sum of the character codes of the post identifier, and for
  \<open>m\<close> from the pool size down to 1 the places \<open>m - 1\<close> and
  \<open>floor (frac (sin (seed + m) * 10000) * m)\<close> are exchanged. Both sides are functions of
  the pool and the post identifier alone, so the order is the same at every invocation.
  For the identifier \<open>p1\<close> the seed is 161.
\<close>

theorem shuffleArray_is_spec_shuffle:
  "shuffleArray sn pool post_id = spec_shuffle sn pool post_id \<and> seedNumber ''p1'' = 161"
proof -
  have "seedNumber ''p1'' = 161" by code_simp
  then show ?thesis
    by (simp add: shuffleArray_def spec_shuffle_def shuffle_loop_spec seedNumber_spec)
qed















section \<open>Properties of one row\<close>

lemma ai_stages_only_chat: "ai_stages env cfg i request = (g, cs) \<Longrightarrow> list_all is_chat cs"
  by (auto simp: ai_stages_def isValidRequest_def enhanceRequest_def categorizeRequest_def
      split: if_splits sum.splits prod.splits)

lemma import_row_not_committed:
  "import_row env cfg fakeUsers i request st = (out, cs, st') \<Longrightarrow> out \<noteq> Committed \<Longrightarrow> st' = st"
  by (auto simp: import_row_def Let_def split: if_splits prod.splits gate.splits option.splits)

lemma import_row_committed:
  "import_row env cfg fakeUsers i request st = (Committed, cs, st') \<Longrightarrow>
     generateItemId (md5 env) request \<notin> set (importedIds (importState st)) \<and>
     (\<exists>enhancedRequest category.
        st' = commit i (generateItemId (md5 env) request) enhancedRequest category st)"
  by (auto simp: import_row_def Let_def split: if_splits prod.splits gate.splits option.splits)


lemma commit_fields:
  "importState (commit i itemId r c st) =
     \<lparr>cursor = Suc i, importedIds = importedIds (importState st) @ [itemId]\<rparr>"
  "import_state_json (commit i itemId r c st) = Some (importState (commit i itemId r c st))"
  "importedPosts (commit i itemId r c st) = Suc (importedPosts st)"
  "existingFeaturePosts st \<subseteq> existingFeaturePosts (commit i itemId r c st)"
  "existingBugPosts st \<subseteq> existingBugPosts (commit i itemId r c st)"
  by (auto simp: commit_def saveImportState_def Let_def)

text \<open>
  Claim C2: a row whose item identifier is in \<open>importedIds\<close> when the row is reached is
  skipped: no request is sent to the feedback board or to the chat service, and the state
  stays as it is. The test comes first in the row, before any stage of the AI gate.
\<close>

theorem local_skip_sends_nothing:
  assumes "generateItemId (md5 env) request \<in> set (importedIds (importState st))"
  shows "import_row env cfg fakeUsers i request st = (LocallySkipped, [], st)"
  using assms by (simp add: import_row_def)

theorem local_skip_sends_nothing_witness:
  "import_row demo_services demo_config demo_users 0 (demo_request ''t0'' ''2020'')
     (initial_state {} {} (Some \<lparr>cursor = 0, importedIds = [''t02020'']\<rparr>)) =
   (LocallySkipped, [], initial_state {} {} (Some \<lparr>cursor = 0, importedIds = [''t02020'']\<rparr>))"
proof (rule local_skip_sends_nothing)
  show "generateItemId (md5 demo_services) (demo_request ''t0'' ''2020'')
          \<in> set (importedIds (importState
                (initial_state {} {} (Some \<lparr>cursor = 0, importedIds = [''t02020'']\<rparr>))))"
    by code_simp
qed

text \<open>
  Claim C3: a row that passes the local test, and whose title after the AI stages is among
  the titles known for the category decided, is skipped. The requests sent are chat
  completions only (no user, post or vote request), and the state is unchanged: no item
  identifier is added, the cursor and the counter of imported posts stay as they are.
\<close>

theorem remote_duplicate_leaves_state:
  assumes "generateItemId (md5 env) request \<notin> set (importedIds (importState st))"
    and "ai_stages env cfg i request = (GatePassed enhancedRequest category, cs)"
    and "title enhancedRequest \<in> existingPosts category st"
  shows "import_row env cfg fakeUsers i request st = (RemotelySkipped, cs, st)
         \<and> list_all is_chat cs"
  using assms ai_stages_only_chat [OF assms(2)] by (simp add: import_row_def)

theorem remote_duplicate_leaves_state_witness:
  "import_row demo_services demo_config demo_users 0 (demo_request ''t0'' ''2020'')
     (initial_state {''t0''} {} None) =
   (RemotelySkipped, [ChatCompletion Categorization ''t0'' ''D''], initial_state {''t0''} {} None)
   \<and> list_all is_chat [ChatCompletion Categorization ''t0'' ''D'']"
proof (rule remote_duplicate_leaves_state)
  show "generateItemId (md5 demo_services) (demo_request ''t0'' ''2020'')
          \<notin> set (importedIds (importState (initial_state {''t0''} {} None)))"
    by code_simp
  show "ai_stages demo_services demo_config 0 (demo_request ''t0'' ''2020'') =
          (GatePassed (demo_request ''t0'' ''2020'') Feature,
           [ChatCompletion Categorization ''t0'' ''D''])"
    by code_simp
  show "title (demo_request ''t0'' ''2020'') \<in> existingPosts Feature (initial_state {''t0''} {} None)"
    by code_simp
qed

text \<open>
  Claim C10: the item identifier is the digest of title and creation date put together
  with nothing in between. There are rows with different pairs of title and creation date
  and the same identifier; whenever two rows agree on the concatenation, and the first is
  imported, the second is skipped by the local test, with no request sent.
\<close>

theorem same_concatenation_same_item:
  assumes "title r1 @ created_at r1 = title r2 @ created_at r2"
    and "import_row env cfg fakeUsers i r1 st = (Committed, cs, st')"
  shows "(\<exists>a b. (title a, created_at a) \<noteq> (title b, created_at b)
            \<and> generateItemId (md5 env) a = generateItemId (md5 env) b)
         \<and> generateItemId (md5 env) r1 = generateItemId (md5 env) r2
         \<and> import_row env cfg fakeUsers j r2 st' = (LocallySkipped, [], st')"
proof -
  have "(title (demo_request ''ab'' ''c''), created_at (demo_request ''ab'' ''c'')) \<noteq>
        (title (demo_request ''a'' ''bc''), created_at (demo_request ''a'' ''bc''))
        \<and> generateItemId (md5 env) (demo_request ''ab'' ''c'') =
          generateItemId (md5 env) (demo_request ''a'' ''bc'')"
    by (simp add: demo_request_def generateItemId_def)
  then have ex: "\<exists>a b. (title a, created_at a) \<noteq> (title b, created_at b)
            \<and> generateItemId (md5 env) a = generateItemId (md5 env) b"
    by blast
  have eq: "generateItemId (md5 env) r1 = generateItemId (md5 env) r2"
    using assms(1) by (simp add: generateItemId_def)
  obtain e c where "st' = commit i (generateItemId (md5 env) r1) e c st"
    using import_row_committed [OF assms(2)] by blast
  then have "generateItemId (md5 env) r2 \<in> set (importedIds (importState st'))"
    using eq by (simp add: commit_fields)
  then have "import_row env cfg fakeUsers j r2 st' = (LocallySkipped, [], st')"
    by (simp add: import_row_def)
  with ex eq show ?thesis by blast
qed

theorem same_concatenation_same_item_witness:
  "title (demo_request ''ab'' ''c'') @ created_at (demo_request ''ab'' ''c'') =
     title (demo_request ''a'' ''bc'') @ created_at (demo_request ''a'' ''bc'')
   \<and> (title (demo_request ''ab'' ''c''), created_at (demo_request ''ab'' ''c'')) \<noteq>
     (title (demo_request ''a'' ''bc''), created_at (demo_request ''a'' ''bc''))
   \<and> fst (import_row demo_services demo_config demo_users 0 (demo_request ''ab'' ''c'')
           (initial_state {} {} None)) = Committed
   \<and> import_row demo_services demo_config demo_users 1 (demo_request ''a'' ''bc'')
       (snd (snd (import_row demo_services demo_config demo_users 0 (demo_request ''ab'' ''c'')
                    (initial_state {} {} None)))) =
     (LocallySkipped, [],
      snd (snd (import_row demo_services demo_config demo_users 0 (demo_request ''ab'' ''c'')
                  (initial_state {} {} None))))"
proof -
  let ?first = "import_row demo_services demo_config demo_users 0 (demo_request ''ab'' ''c'')
                  (initial_state {} {} None)"
  have same: "title (demo_request ''ab'' ''c'') @ created_at (demo_request ''ab'' ''c'') =
     title (demo_request ''a'' ''bc'') @ created_at (demo_request ''a'' ''bc'')"
    by (simp add: demo_request_def)
  have differ: "(title (demo_request ''ab'' ''c''), created_at (demo_request ''ab'' ''c'')) \<noteq>
     (title (demo_request ''a'' ''bc''), created_at (demo_request ''a'' ''bc''))"
    by (simp add: demo_request_def)
  have c: "fst ?first = Committed" by code_simp
  then have first: "?first = (Committed, fst (snd ?first), snd (snd ?first))"
    by (simp add: prod_eq_iff)
  from same_concatenation_same_item [OF same first, of 1] same differ c show ?thesis by simp
qed

section \<open>Properties of the loop\<close>

lemma import_rows_ConsE:
  assumes "import_rows env cfg fu i (r # rs) st = (lg, s, stf)"
  obtains (capped) "reached_maximum cfg st" "lg = []" "s" "stf = st"
  | (step) out cs st' lg' where "\<not> reached_maximum cfg st"
      "import_row env cfg fu i r st = (out, cs, st')"
      "import_rows env cfg fu (Suc i) rs st' = (lg', s, stf)"
      "lg = (i, out, cs) # lg'"
  using assms by (auto split: if_splits prod.splits)



lemma import_rows_no_commit:
  "import_rows env cfg fu i rs st = (lg, s, stf) \<Longrightarrow>
     list_all (\<lambda>en. fst (snd en) \<noteq> Committed) lg \<Longrightarrow> stf = st"
proof (induction rs arbitrary: i st lg)
  case Nil
  then show ?case by simp
next
  case (Cons r rs)
  from Cons.prems(1) show ?case
  proof (cases rule: import_rows_ConsE)
    case capped
    then show ?thesis by simp
  next
    case (step out cs st' lg')
    with Cons.prems(2) have "out \<noteq> Committed" and rest: "list_all (\<lambda>en. fst (snd en) \<noteq> Committed) lg'"
      by simp_all
    then have "st' = st" using import_row_not_committed [OF step(2)] by simp
    with Cons.IH [OF step(3) rest] show ?thesis by simp
  qed
qed



lemma import_row_invariant:
  assumes "import_row env cfg fu i r st = (out, cs, st')"
    and "loadOrCreateImportState (import_state_json st) = importState st"
    and "importedPosts st = length (importedIds (importState st))"
  shows "loadOrCreateImportState (import_state_json st') = importState st' \<and>
         importedPosts st' = length (importedIds (importState st'))"
proof (cases "out = Committed")
  case True
  with assms(1) obtain en c where "st' = commit i (generateItemId (md5 env) r) en c st"
    using import_row_committed by blast
  with assms(3) show ?thesis by (simp add: commit_fields loadOrCreateImportState_def)
next
  case False
  with assms show ?thesis using import_row_not_committed by metis
qed

lemma import_rows_invariant:
  "import_rows env cfg fu i rs st = (lg, s, stf) \<Longrightarrow>
   loadOrCreateImportState (import_state_json st) = importState st \<Longrightarrow>
   importedPosts st = length (importedIds (importState st)) \<Longrightarrow>
     loadOrCreateImportState (import_state_json stf) = importState stf \<and>
     importedPosts stf = length (importedIds (importState stf))"
proof (induction rs arbitrary: i st lg)
  case Nil
  then show ?case by simp
next
  case (Cons r rs)
  from Cons.prems(1) show ?case
  proof (cases rule: import_rows_ConsE)
    case capped
    with Cons.prems show ?thesis by simp
  next
    case (step out cs st' lg')
    from import_row_invariant [OF step(2) Cons.prems(2,3)] Cons.IH [OF step(3)]
    show ?thesis by simp
  qed
qed

lemma initial_state_invariant:
  "loadOrCreateImportState (import_state_json (initial_state F B file)) =
     importState (initial_state F B file) \<and>
   importedPosts (initial_state F B file) =
     length (importedIds (importState (initial_state F B file)))"
  by (simp add: initial_state_def)

lemma initial_state_again:
  assumes "loadOrCreateImportState (import_state_json st) = importState st"
    and "importedPosts st = length (importedIds (importState st))"
  shows "initial_state (existingFeaturePosts st) (existingBugPosts st) (import_state_json st) = st"
  using assms by (simp add: initial_state_def)

lemma main_loop_unfold:
  "main_loop env cfg requests fu F B file =
     import_rows env cfg fu (cursor (loadOrCreateImportState file))
       (drop (cursor (loadOrCreateImportState file)) requests) (initial_state F B file)"
  by (simp add: main_loop_def Let_def initial_state_def)

lemma initial_state_importState:
  "importState (initial_state F B file) = loadOrCreateImportState file"
  by (simp add: initial_state_def)






subsection \<open>The maximum\<close>

lemma ai_stages_MAX_POSTS:
  "ai_stages env (cfg\<lparr>MAX_POSTS := x\<rparr>) i r = ai_stages env cfg i r"
  by (simp add: ai_stages_def)

lemma publish_MAX_POSTS:
  "publish env (cfg\<lparr>MAX_POSTS := x\<rparr>) fu i r er c = publish env cfg fu i r er c"
  by (simp add: publish_def createPost_def split: prod.splits sum.splits)

lemma import_row_MAX_POSTS:
  "import_row env (cfg\<lparr>MAX_POSTS := x\<rparr>) fu i r st = import_row env cfg fu i r st"
  by (simp add: import_row_def ai_stages_MAX_POSTS publish_MAX_POSTS
      cong: prod.case_cong gate.case_cong if_cong)

lemma import_row_posts:
  "import_row env cfg fu i r st = (out, cs, st') \<Longrightarrow>
     importedPosts st' = importedPosts st + (if out = Committed then 1 else 0)"
  by (cases "out = Committed")
    (auto dest: import_row_committed import_row_not_committed simp: commit_fields)

lemma import_rows_posts:
  "import_rows env cfg fu i rs st = (lg, s, stf) \<Longrightarrow>
     importedPosts stf = importedPosts st + committed_rows lg"
proof (induction rs arbitrary: i st lg)
  case Nil
  then show ?case by (simp add: committed_rows_def)
next
  case (Cons r rs)
  from Cons.prems show ?case
  proof (cases rule: import_rows_ConsE)
    case capped
    then show ?thesis by (simp add: committed_rows_def)
  next
    case (step out cs st' lg')
    from Cons.IH [OF step(3)] import_row_posts [OF step(2)] step(4)
    show ?thesis by (simp add: committed_rows_def)
  qed
qed

lemma import_rows_posts_mono:
  "importedPosts st \<le> importedPosts (snd (snd (import_rows env cfg fu i rs st)))"
  using import_rows_posts [of env cfg fu i rs st] by (metis le_add1 prod.collapse)

lemma capped_and_uncapped:
  assumes "parseInt (MAX_POSTS cfg) = Some k" and "parseInt x = None"
  shows "int (importedPosts (snd (snd (import_rows env cfg fu i rs st)))) =
           (if k \<le> int (importedPosts st) then int (importedPosts st)
            else min k (int (importedPosts
                   (snd (snd (import_rows env (cfg\<lparr>MAX_POSTS := x\<rparr>) fu i rs st))))))"
proof (induction rs arbitrary: i st)
  case Nil
  then show ?case by simp
next
  case (Cons r rs)
  let ?u = "cfg\<lparr>MAX_POSTS := x\<rparr>"
  have ru: "\<not> reached_maximum ?u st" using assms(2) by (simp add: reached_maximum_def)
  have rc: "reached_maximum cfg st \<longleftrightarrow> k \<le> int (importedPosts st)"
    using assms(1) by (simp add: reached_maximum_def)
  show ?case
  proof (cases "k \<le> int (importedPosts st)")
    case True
    then show ?thesis using rc by simp
  next
    case False
    obtain out cs st' where row: "import_row env cfg fu i r st = (out, cs, st')"
      by (metis prod.exhaust)
    have stepc: "snd (snd (import_rows env cfg fu i (r # rs) st)) =
                 snd (snd (import_rows env cfg fu (Suc i) rs st'))"
      using False rc row by (simp split: prod.splits)
    have stepu: "snd (snd (import_rows env ?u fu i (r # rs) st)) =
                 snd (snd (import_rows env ?u fu (Suc i) rs st'))"
      using ru row by (simp add: import_row_MAX_POSTS split: prod.splits)
    have p: "importedPosts st' = importedPosts st + (if out = Committed then 1 else 0)"
      using import_row_posts [OF row] .
    have m: "importedPosts st' \<le> importedPosts (snd (snd (import_rows env ?u fu (Suc i) rs st')))"
      by (rule import_rows_posts_mono)
    show ?thesis
      unfolding stepc stepu Cons.IH [of "Suc i" st'] using False p m by auto
  qed
qed

lemma capped_stops:
  assumes "parseInt (MAX_POSTS cfg) = Some k" and "parseInt x = None"
  shows "max k (int (importedPosts st)) <
           int (importedPosts (snd (snd (import_rows env (cfg\<lparr>MAX_POSTS := x\<rparr>) fu i rs st)))) \<Longrightarrow>
         fst (snd (import_rows env cfg fu i rs st))"
proof (induction rs arbitrary: i st)
  case Nil
  then show ?case by simp
next
  case (Cons r rs)
  let ?u = "cfg\<lparr>MAX_POSTS := x\<rparr>"
  have ru: "\<not> reached_maximum ?u st" using assms(2) by (simp add: reached_maximum_def)
  have rc: "reached_maximum cfg st \<longleftrightarrow> k \<le> int (importedPosts st)"
    using assms(1) by (simp add: reached_maximum_def)
  show ?case
  proof (cases "k \<le> int (importedPosts st)")
    case True
    then show ?thesis using rc by simp
  next
    case False
    obtain out cs st' where row: "import_row env cfg fu i r st = (out, cs, st')"
      by (metis prod.exhaust)
    have stepc: "fst (snd (import_rows env cfg fu i (r # rs) st)) =
                 fst (snd (import_rows env cfg fu (Suc i) rs st'))"
      using False rc row by (simp split: prod.splits)
    have stepu: "snd (snd (import_rows env ?u fu i (r # rs) st)) =
                 snd (snd (import_rows env ?u fu (Suc i) rs st'))"
      using ru row by (simp add: import_row_MAX_POSTS split: prod.splits)
    have p: "importedPosts st' = importedPosts st + (if out = Committed then 1 else 0)"
      using import_row_posts [OF row] .
    have "max k (int (importedPosts st')) <
           int (importedPosts (snd (snd (import_rows env ?u fu (Suc i) rs st'))))"
      using Cons.prems False p unfolding stepu by (auto split: if_splits)
    from Cons.IH [OF this] show ?thesis unfolding stepc .
  qed
qed

lemma parseInt_Infinity: "parseInt ''Infinity'' = None"
  by code_simp

text \<open>
  Claim C5, as the code has it: the counter starts at the number \<open>p\<close> of item identifiers
  already recorded. With the maximum \<open>k\<close>, when the run without a maximum would import
  more rows than \<open>k - p\<close> leaves room for, the run imports exactly \<open>k - p\<close> rows (none
  when \<open>p\<close> is \<open>k\<close> or more) and leaves the loop by \<open>break\<close>.
\<close>

theorem maximum_counts_recorded_items:
  assumes "parseInt (MAX_POSTS cfg) = Some k"
    and "main_loop env cfg requests fakeUsers F B file = (lg, stopped, stf)"
    and "main_loop env (cfg\<lparr>MAX_POSTS := ''Infinity''\<rparr>) requests fakeUsers F B file =
           (lgU, stoppedU, stfU)"
    and "p = length (importedIds (loadOrCreateImportState file))"
    and "nat (k - int p) < committed_rows lgU"
  shows "committed_rows lg = nat (k - int p) \<and> stopped"
proof -
  let ?c = "cursor (loadOrCreateImportState file)"
  let ?st = "initial_state F B file"
  let ?u = "cfg\<lparr>MAX_POSTS := ''Infinity''\<rparr>"
  have run: "import_rows env cfg fakeUsers ?c (drop ?c requests) ?st = (lg, stopped, stf)"
    using assms(2) by (simp add: main_loop_unfold)
  have runU: "import_rows env ?u fakeUsers ?c (drop ?c requests) ?st = (lgU, stoppedU, stfU)"
    using assms(3) by (simp add: main_loop_unfold)
  have p0: "importedPosts ?st = p" using assms(4) by (simp add: initial_state_def)
  have tot: "importedPosts stf = p + committed_rows lg"
    using import_rows_posts [OF run] p0 by simp
  have totU: "importedPosts stfU = p + committed_rows lgU"
    using import_rows_posts [OF runU] p0 by simp
  have "int (importedPosts stf) =
          (if k \<le> int p then int p else min k (int (importedPosts stfU)))"
    using capped_and_uncapped [OF assms(1) parseInt_Infinity, of env fakeUsers ?c "drop ?c requests" ?st]
    by (simp add: run runU p0)
  then have n: "committed_rows lg = nat (k - int p)"
    using tot totU assms(5) by (auto split: if_splits)
  have "max k (int p) < int (importedPosts stfU)"
    using totU assms(5) by auto
  then have "stopped"
    using capped_stops [OF assms(1) parseInt_Infinity, of ?st env fakeUsers ?c "drop ?c requests"]
    by (simp add: run runU p0)
  with n show ?thesis by simp
qed

theorem maximum_counts_recorded_items_witness:
  "parseInt (MAX_POSTS (demo_config\<lparr>MAX_POSTS := ''2''\<rparr>)) = Some 2
   \<and> length (importedIds (loadOrCreateImportState
        (Some \<lparr>cursor = 1, importedIds = [''t02020'']\<rparr>))) = 1
   \<and> committed_rows (fst (main_loop demo_services
        (demo_config\<lparr>MAX_POSTS := ''2'', MAX_POSTS := ''Infinity''\<rparr>) (demo_rows 4) demo_users
        {''t0''} {} (Some \<lparr>cursor = 1, importedIds = [''t02020'']\<rparr>))) = 3
   \<and> committed_rows (fst (main_loop demo_services (demo_config\<lparr>MAX_POSTS := ''2''\<rparr>)
        (demo_rows 4) demo_users {''t0''} {}
        (Some \<lparr>cursor = 1, importedIds = [''t02020'']\<rparr>))) = 1
   \<and> fst (snd (main_loop demo_services (demo_config\<lparr>MAX_POSTS := ''2''\<rparr>)
        (demo_rows 4) demo_users {''t0''} {}
        (Some \<lparr>cursor = 1, importedIds = [''t02020'']\<rparr>)))"
proof -
  let ?cfg = "demo_config\<lparr>MAX_POSTS := ''2''\<rparr>"
  let ?file = "Some \<lparr>cursor = 1, importedIds = [''t02020'']\<rparr>"
  let ?run = "main_loop demo_services ?cfg (demo_rows 4) demo_users {''t0''} {} ?file"
  let ?runU = "main_loop demo_services (?cfg\<lparr>MAX_POSTS := ''Infinity''\<rparr>) (demo_rows 4)
                 demo_users {''t0''} {} ?file"
  have k: "parseInt (MAX_POSTS ?cfg) = Some 2" by code_simp
  have run: "?run = (fst ?run, fst (snd ?run), snd (snd ?run))" by simp
  have runU: "?runU = (fst ?runU, fst (snd ?runU), snd (snd ?runU))" by simp
  have p: "1 = length (importedIds (loadOrCreateImportState ?file))"
    by (simp add: loadOrCreateImportState_def)
  have u: "committed_rows (fst ?runU) = 3" by code_simp
  then have more: "nat (2 - int 1) < committed_rows (fst ?runU)" by simp
  from maximum_counts_recorded_items [OF k run runU p more] k p u show ?thesis by simp
qed

text \<open>
  A resumed run with one item recorded, the maximum 1 and two rows that a run without a
  maximum imports: the loop is left at once and nothing is imported.
\<close>

theorem maximum_this_run_counterexample:
  "parseInt (MAX_POSTS (demo_config\<lparr>MAX_POSTS := ''1''\<rparr>)) = Some 1
   \<and> committed_rows (fst (main_loop demo_services demo_config (demo_rows 3) demo_users
        {''t0''} {} (Some \<lparr>cursor = 1, importedIds = [''t02020'']\<rparr>))) = 2
   \<and> main_loop demo_services (demo_config\<lparr>MAX_POSTS := ''1''\<rparr>) (demo_rows 3) demo_users
        {''t0''} {} (Some \<lparr>cursor = 1, importedIds = [''t02020'']\<rparr>) =
      ([], True, initial_state {''t0''} {} (Some \<lparr>cursor = 1, importedIds = [''t02020'']\<rparr>))"
  by code_simp

subsection \<open>A second run\<close>

lemma import_row_quiet:
  "import_row env cfg fu i r st = (out, cs, st') \<Longrightarrow> out \<noteq> Committed \<Longrightarrow> \<not> is_failed out \<Longrightarrow>
     quiet_entry (i, out, cs)"
  by (auto simp: import_row_def Let_def quiet_entry_def dest: ai_stages_only_chat
      split: if_splits prod.splits gate.splits option.splits)

lemma quiet_no_commit:
  "list_all quiet_entry lg \<Longrightarrow> list_all (\<lambda>en. fst (snd en) \<noteq> Committed) lg"
  by (auto simp: list_all_iff quiet_entry_def)

lemma import_rows_append:
  "import_rows env cfg fu i (xs @ ys) st =
     (case import_rows env cfg fu i xs st of
        (lgx, sx, stx) \<Rightarrow>
          if sx then (lgx, True, stx)
          else (case import_rows env cfg fu (i + length xs) ys stx of
                  (lgy, sy, sty) \<Rightarrow> (lgx @ lgy, sy, sty)))"
proof (induction xs arbitrary: i st)
  case Nil
  show ?case by (simp split: prod.splits)
next
  case (Cons x xs)
  show ?case
    by (simp add: Cons.IH split: prod.splits)
qed

lemma pending_rows_quiet:
  assumes "import_rows env cfg fu i rs st = (lg, s, stf)"
    and "rs = drop i reqs"
    and "list_all (\<lambda>en. \<not> is_failed (fst (snd en))) lg"
    and "cursor (importState st) \<le> i"
    and "list_all quiet_entry
           (fst (import_rows env cfg fu (cursor (importState st))
                  (take (i - cursor (importState st)) (drop (cursor (importState st)) reqs)) st))"
  shows "list_all quiet_entry
           (fst (import_rows env cfg fu (cursor (importState stf))
                  (drop (cursor (importState stf)) reqs) stf))"
  using assms
proof (induction rs arbitrary: i st lg)
  case Nil
  then have "length reqs \<le> i" and "stf = st" by simp_all
  then have "take (i - cursor (importState st)) (drop (cursor (importState st)) reqs) =
             drop (cursor (importState st)) reqs"
    by simp
  with Nil.prems(5) \<open>stf = st\<close> show ?case by simp
next
  case (Cons r rs)
  let ?c = "cursor (importState st)"
  from Cons.prems(2) have i: "i < length reqs"
    by (metis drop_all list.distinct(1) not_le)
  have "r # rs = reqs ! i # drop (Suc i) reqs"
    using Cons.prems(2) Cons_nth_drop_Suc [OF i] by simp
  then have r: "r = reqs ! i" and rs: "rs = drop (Suc i) reqs"
    by simp_all
  from Cons.prems(1) show ?case
  proof (cases rule: import_rows_ConsE)
    case capped
    then show ?thesis by (cases "drop ?c reqs") simp_all
  next
    case (step out cs st' lg')
    have nf: "\<not> is_failed out" and nf': "list_all (\<lambda>en. \<not> is_failed (fst (snd en))) lg'"
      using Cons.prems(3) step(4) by simp_all
    show ?thesis
    proof (cases "out = Committed")
      case True
      then have "cursor (importState st') = Suc i"
        using import_row_committed [of env cfg fu i r st cs st'] step(2)
        by (auto simp: commit_fields)
      then show ?thesis
        using Cons.IH [OF step(3) rs nf', of ] by simp
    next
      case False
      then have same: "st' = st" using import_row_not_committed [OF step(2)] by simp
      have q: "quiet_entry (i, out, cs)" using import_row_quiet [OF step(2) False nf] .
      let ?pre = "take (i - ?c) (drop ?c reqs)"
      have len: "length ?pre = i - ?c" using i Cons.prems(4) by simp
      have tk: "take (Suc i - ?c) (drop ?c reqs) = ?pre @ [r]"
        using i Cons.prems(4) r by (simp add: Suc_diff_le take_Suc_conv_app_nth)
      obtain lgx sx stx where pre: "import_rows env cfg fu ?c ?pre st = (lgx, sx, stx)"
        by (metis prod.exhaust)
      with Cons.prems(5) have qx: "list_all quiet_entry lgx" by simp
      then have stx: "stx = st"
        using import_rows_no_commit [OF pre] quiet_no_commit by blast
      have "list_all quiet_entry (fst (import_rows env cfg fu ?c (?pre @ [r]) st))"
        using pre qx stx q step(1,2) len Cons.prems(4) same
        by (simp add: import_rows_append)
      then have "list_all quiet_entry
           (fst (import_rows env cfg fu (cursor (importState st'))
                  (take (Suc i - cursor (importState st')) (drop (cursor (importState st')) reqs)) st'))"
        using tk same by simp
      moreover have "cursor (importState st') \<le> Suc i" using same Cons.prems(4) by simp
      ultimately show ?thesis
        using Cons.IH [OF step(3) rs nf'] by simp
    qed
  qed
qed

text \<open>
  Claim C6: after a run in which no row has failed, a second run with the same rows, the
  same services, the state file and the board titles the first run has left imports
  nothing: every row it goes through is skipped by the local test, by the validity filter
  or by the test of the board titles, sends chat completions at most, and the state at the
  end is the state at the start.
\<close>

theorem second_run_imports_nothing:
  assumes "main_loop env cfg requests fakeUsers F B file = (lg1, s1, st1)"
    and "list_all (\<lambda>en. \<not> is_failed (fst (snd en))) lg1"
    and "main_loop env cfg requests fakeUsers (existingFeaturePosts st1) (existingBugPosts st1)
           (import_state_json st1) = (lg2, s2, st2)"
  shows "list_all quiet_entry lg2 \<and> committed_rows lg2 = 0 \<and> st2 = st1"
proof -
  let ?c = "cursor (loadOrCreateImportState file)"
  let ?st = "initial_state F B file"
  have run: "import_rows env cfg fakeUsers ?c (drop ?c requests) ?st = (lg1, s1, st1)"
    using assms(1) by (simp add: main_loop_unfold)
  have inv: "loadOrCreateImportState (import_state_json st1) = importState st1"
    "importedPosts st1 = length (importedIds (importState st1))"
    using import_rows_invariant [OF run] initial_state_invariant [of F B "file"] by simp_all
  have again: "initial_state (existingFeaturePosts st1) (existingBugPosts st1)
                 (import_state_json st1) = st1"
    using initial_state_again [OF inv] .
  have run2: "import_rows env cfg fakeUsers (cursor (importState st1))
                (drop (cursor (importState st1)) requests) st1 = (lg2, s2, st2)"
    using assms(3) by (simp add: main_loop_unfold again inv(1))
  have "list_all quiet_entry
          (fst (import_rows env cfg fakeUsers (cursor (importState st1))
                 (drop (cursor (importState st1)) requests) st1))"
    using pending_rows_quiet [OF run refl assms(2), of ]
    by (simp add: initial_state_importState)
  then have q: "list_all quiet_entry lg2" by (simp add: run2)
  then have nc: "list_all (\<lambda>en. fst (snd en) \<noteq> Committed) lg2" by (rule quiet_no_commit)
  then have "st2 = st1" using import_rows_no_commit [OF run2] by simp
  moreover have "committed_rows lg2 = 0"
    using nc by (simp add: committed_rows_def list_all_iff)
  ultimately show ?thesis using q by simp
qed

theorem second_run_imports_nothing_witness:
  "list_all (\<lambda>en. \<not> is_failed (fst (snd en)))
     (fst (main_loop demo_services demo_config (demo_rows 2) demo_users {''t1''} {} None))
   \<and> fst (main_loop demo_services demo_config (demo_rows 2) demo_users
        (existingFeaturePosts (snd (snd
           (main_loop demo_services demo_config (demo_rows 2) demo_users {''t1''} {} None))))
        (existingBugPosts (snd (snd
           (main_loop demo_services demo_config (demo_rows 2) demo_users {''t1''} {} None))))
        (import_state_json (snd (snd
           (main_loop demo_services demo_config (demo_rows 2) demo_users {''t1''} {} None))))) =
      [(1, RemotelySkipped, [ChatCompletion Categorization ''t1'' ''D''])]
   \<and> list_all quiet_entry [(1, RemotelySkipped, [ChatCompletion Categorization ''t1'' ''D''])]
   \<and> committed_rows [(1, RemotelySkipped, [ChatCompletion Categorization ''t1'' ''D''])] = 0"
proof -
  let ?run = "main_loop demo_services demo_config (demo_rows 2) demo_users {''t1''} {} None"
  let ?again = "main_loop demo_services demo_config (demo_rows 2) demo_users
        (existingFeaturePosts (snd (snd ?run))) (existingBugPosts (snd (snd ?run)))
        (import_state_json (snd (snd ?run)))"
  have run: "?run = (fst ?run, fst (snd ?run), snd (snd ?run))" by simp
  have nf: "list_all (\<lambda>en. \<not> is_failed (fst (snd en))) (fst ?run)" by code_simp
  have again: "?again = (fst ?again, fst (snd ?again), snd (snd ?again))" by simp
  have lg: "fst ?again = [(1, RemotelySkipped, [ChatCompletion Categorization ''t1'' ''D''])]"
    by code_simp
  from second_run_imports_nothing [OF run nf again] nf lg show ?thesis by simp
qed

end
